theory Spec2Isabelle
  imports Complex_Main
begin

section \<open>Text primitives of the Python runtime used by \<^verbatim>\<open>keski.py\<close>\<close>

text \<open>
  A Python \<^verbatim>\<open>str\<close> is modelled as a \<^typ>\<open>string\<close>: a list of characters, each character
  standing for the code point of the same number. The model therefore covers the texts
  whose code points are below 256. On these code points the regular expression class
  \<^verbatim>\<open>\d\<close> matches exactly the ten ASCII digits, \<^verbatim>\<open>str.isspace\<close> holds exactly for the
  code points 9 to 13, 28 to 32, 133 and 160, and \<^verbatim>\<open>str.splitlines\<close> breaks exactly at
  the code points 10 to 13, 28 to 30 and 133 (a carriage return followed by a line feed
  being one break).
\<close>

definition isdigit :: "char \<Rightarrow> bool" where
  "isdigit c = (let n = (of_char c :: nat) in 48 \<le> n \<and> n \<le> 57)"

definition isspace :: "char \<Rightarrow> bool" where
  "isspace c = (let n = (of_char c :: nat) in
     (9 \<le> n \<and> n \<le> 13) \<or> (28 \<le> n \<and> n \<le> 32) \<or> n = 133 \<or> n = 160)"

definition is_linebreak :: "char \<Rightarrow> bool" where
  "is_linebreak c = (let n = (of_char c :: nat) in
     (10 \<le> n \<and> n \<le> 13) \<or> (28 \<le> n \<and> n \<le> 30) \<or> n = 133)"

text \<open>\<^verbatim>\<open>s.strip()\<close>: leading and trailing whitespace removed.\<close>

definition strip :: "string \<Rightarrow> string" where
  "strip s = rev (dropWhile isspace (rev (dropWhile isspace s)))"

text \<open>
  \<^verbatim>\<open>s.split(' ', n)\<close>: cut at each of the first \<open>n\<close> single spaces; two spaces in a row
  give an empty part, and the last part keeps its spaces.
\<close>

fun split_space :: "nat \<Rightarrow> string \<Rightarrow> string list" where
  "split_space 0 s = [s]"
| "split_space (Suc n) s =
     (if CHR '' '' \<in> set s
      then takeWhile (\<lambda>c. c \<noteq> CHR '' '') s
             # split_space n (tl (dropWhile (\<lambda>c. c \<noteq> CHR '' '') s))
      else [s])"

text \<open>
  \<^verbatim>\<open>s.splitlines()\<close>: the first argument holds the characters of the line being read, in
  reverse. A text that ends in a line break has no empty last line.
\<close>

fun splitlines_from :: "string \<Rightarrow> string \<Rightarrow> string list" where
  "splitlines_from cur [] = (if cur = [] then [] else [rev cur])"
| "splitlines_from cur [c] =
     (if is_linebreak c then [rev cur] else [rev (c # cur)])"
| "splitlines_from cur (c # d # cs) =
     (if c = CHR 0x0D \<and> d = CHR 0x0A then rev cur # splitlines_from [] cs
      else if is_linebreak c then rev cur # splitlines_from [] (d # cs)
      else splitlines_from (c # cur) (d # cs))"

definition splitlines :: "string \<Rightarrow> string list" where
  "splitlines s = splitlines_from [] s"

text \<open>\<^verbatim>\<open>int(ds)\<close> on a text of decimal digits.\<close>

definition digit_value :: "char \<Rightarrow> int" where
  "digit_value c = int (of_char c) - 48"

definition int_of_digits :: "string \<Rightarrow> int" where
  "int_of_digits ds = foldl (\<lambda>a c. 10 * a + digit_value c) 0 ds"

section \<open>The year extractor\<close>

text \<open>
  \<^verbatim>\<open>re.search(r'\d{4}', s)\<close>: the leftmost position at which four digits stand in a row;
  the result is \<^verbatim>\<open>match.group(0)\<close>, the four characters matched.
\<close>

fun re_search_d4 :: "string \<Rightarrow> string option" where
  "re_search_d4 [] = None"
| "re_search_d4 (c # cs) =
     (if 4 \<le> length (c # cs) \<and> list_all isdigit (take 4 (c # cs))
      then Some (take 4 (c # cs))
      else re_search_d4 cs)"

text \<open>
  \<^verbatim>\<open>extract_year(date_str)\<close>. The argument is \<open>None\<close> or a text; \<^verbatim>\<open>not date_str\<close> holds for
  \<open>None\<close> and for the empty text.
\<close>

definition extract_year :: "string option \<Rightarrow> int option" where
  "extract_year date_str =
     (case date_str of
        None \<Rightarrow> None
      | Some s \<Rightarrow>
          if s = [] then None
          else (case re_search_d4 s of
                  Some m \<Rightarrow> Some (int_of_digits m)
                | None \<Rightarrow> None))"

section \<open>The parser\<close>

text \<open>
  One individual is the dictionary \<^verbatim>\<open>{'id': ..., 'birth_year': ..., 'death_year': ...}\<close>.
  The field \<^verbatim>\<open>id\<close> is named \<open>id_str\<close> here.
\<close>

record indi =
  id_str :: string
  birth_year :: "int option"
  death_year :: "int option"

text \<open>The variables of the loop of \<^verbatim>\<open>parse_gedcom_to_df\<close>.\<close>

record pstate =
  individuals :: "indi list"
  current_indi :: "indi option"
  last_tag :: "string option"

definition init_pstate :: pstate where
  "init_pstate = \<lparr>individuals = [], current_indi = None, last_tag = None\<rparr>"

text \<open>
  The three values the loop body reads from a line: \<^verbatim>\<open>level\<close>, \<^verbatim>\<open>tag\<close> and \<^verbatim>\<open>payload\<close>.
  A line with one part only is skipped (\<^verbatim>\<open>continue\<close>), which is \<open>None\<close> here.
\<close>

definition line_parts :: "string \<Rightarrow> (string \<times> string \<times> string) option" where
  "line_parts line =
     (case split_space 2 (strip line) of
        level # tag # rest \<Rightarrow>
          Some (level, tag, (case rest of [] \<Rightarrow> [] | p # _ \<Rightarrow> p))
      | _ \<Rightarrow> None)"

text \<open>Truth value of \<^verbatim>\<open>last_tag\<close>: \<open>None\<close> and the empty text are false.\<close>

definition truthy :: "string option \<Rightarrow> bool" where
  "truthy t = (case t of None \<Rightarrow> False | Some s \<Rightarrow> s \<noteq> [])"

text \<open>
  The loop body. The dictionary of an individual has three keys, so \<^verbatim>\<open>if current_indi:\<close>
  holds whenever \<^verbatim>\<open>current_indi\<close> is not \<open>None\<close>.
\<close>

definition process_line :: "pstate \<Rightarrow> string \<Rightarrow> pstate" where
  "process_line st line =
     (case line_parts line of
        None \<Rightarrow> st
      | Some (level, tag, payload) \<Rightarrow>
          if level = ''0'' \<and> payload = ''INDI'' then
            \<lparr>individuals =
               (case current_indi st of
                  Some cur \<Rightarrow> individuals st @ [cur]
                | None \<Rightarrow> individuals st),
             current_indi = Some \<lparr>id_str = tag, birth_year = None, death_year = None\<rparr>,
             last_tag = None\<rparr>
          else
            (case current_indi st of
               None \<Rightarrow> st
             | Some cur \<Rightarrow>
                 let lt = (if level = ''1''
                           then (if tag \<in> set [''BIRT'', ''DEAT''] then Some tag else None)
                           else last_tag st)
                 in if level = ''2'' \<and> tag = ''DATE'' \<and> truthy lt then
                      let year = extract_year (Some payload)
                      in if lt = Some ''BIRT'' then
                           st\<lparr>current_indi := Some (cur\<lparr>birth_year := year\<rparr>), last_tag := lt\<rparr>
                         else if lt = Some ''DEAT'' then
                           st\<lparr>current_indi := Some (cur\<lparr>death_year := year\<rparr>), last_tag := lt\<rparr>
                         else st\<lparr>last_tag := lt\<rparr>
                    else st\<lparr>last_tag := lt\<rparr>))"

text \<open>After the loop the individual under construction is appended.\<close>

definition finish :: "pstate \<Rightarrow> indi list" where
  "finish st =
     (case current_indi st of
        Some cur \<Rightarrow> individuals st @ [cur]
      | None \<Rightarrow> individuals st)"

definition parse_lines :: "string list \<Rightarrow> indi list" where
  "parse_lines ls = finish (foldl process_line init_pstate ls)"

text \<open>
  A pandas data frame, as far as the program reads it: the column labels and the rows.
  \<^verbatim>\<open>pd.DataFrame(individuals)\<close> takes its columns from the keys of the dictionaries, so
  the frame of an empty list has no column.
\<close>

record dataframe =
  columns :: "string list"
  rows :: "indi list"

definition DataFrame :: "indi list \<Rightarrow> dataframe" where
  "DataFrame inds =
     \<lparr>columns = (if inds = [] then [] else [''id'', ''birth_year'', ''death_year'']),
      rows = inds\<rparr>"

definition parse_gedcom_to_df :: "string \<Rightarrow> dataframe" where
  "parse_gedcom_to_df file_content = DataFrame (parse_lines (splitlines file_content))"

section \<open>The aggregator\<close>

text \<open>
  The statements of the script after the parse, on the rows of the data frame. A missing
  year is \<open>None\<close> in the dictionary and a missing value (NaN) in the frame; a comparison
  with a missing value is false, and arithmetic on one gives a missing value.
  Averages are floating point numbers in the program and exact rationals here; the
  rounding is that of \<^verbatim>\<open>round(1)\<close>: to the nearest tenth, a tie going to the even tenth.
\<close>

datatype py_error = KeyError "string list"

text \<open>
  \<^verbatim>\<open>df.dropna(subset=['birth_year', 'death_year'])\<close>: pandas raises \<^verbatim>\<open>KeyError\<close> with the
  labels of \<open>subset\<close> that are no column of the frame; otherwise the rows with a missing
  value in one of the two columns are dropped.
\<close>

definition dropna :: "dataframe \<Rightarrow> py_error + dataframe" where
  "dropna df =
     (let subset = [''birth_year'', ''death_year''];
          missing = filter (\<lambda>c. c \<notin> set (columns df)) subset
      in if missing \<noteq> [] then Inl (KeyError missing)
         else Inr (df\<lparr>rows := filter (\<lambda>r. birth_year r \<noteq> None \<and> death_year r \<noteq> None)
                                 (rows df)\<rparr>))"

text \<open>The column \<^verbatim>\<open>df['age'] = df['death_year'] - df['birth_year']\<close>.\<close>

definition age :: "indi \<Rightarrow> int option" where
  "age r =
     (case (death_year r, birth_year r) of
        (Some d, Some b) \<Rightarrow> Some (d - b)
      | _ \<Rightarrow> None)"

text \<open>\<^verbatim>\<open>df = df[(df['age'] >= 0) & (df['age'] < 120)]\<close>\<close>

definition age_mask :: "indi \<Rightarrow> bool" where
  "age_mask r = (case age r of Some a \<Rightarrow> 0 \<le> a \<and> a < 120 | None \<Rightarrow> False)"

definition start_year :: int where
  "start_year = 1800"

definition end_year :: int where
  "end_year = 1899"

text \<open>
  \<^verbatim>\<open>mask = (df['birth_year'] >= start_year) & (df['birth_year'] <= end_year)\<close>, named
  \<open>mask_range\<close> here.
\<close>

definition mask_range :: "indi \<Rightarrow> bool" where
  "mask_range r = (case birth_year r of Some b \<Rightarrow> start_year \<le> b \<and> b \<le> end_year | None \<Rightarrow> False)"

text \<open>The column \<^verbatim>\<open>decade = (birth_year // 10) * 10\<close>; \<open>div\<close> on integers rounds down.\<close>

definition decade :: "indi \<Rightarrow> int option" where
  "decade r = map_option (\<lambda>b. (b div 10) * 10) (birth_year r)"

text \<open>
  \<^verbatim>\<open>groupby('decade')['age'].agg(['mean', 'count'])\<close>: one row per key, the keys in
  ascending order; \<open>count\<close> counts the ages present and \<open>mean\<close> averages them (a group with
  no age present has the mean NaN).
\<close>

definition group_ages :: "indi list \<Rightarrow> int \<Rightarrow> int list" where
  "group_ages rs k = List.map_filter age (filter (\<lambda>r. decade r = Some k) rs)"

definition mean :: "int list \<Rightarrow> rat option" where
  "mean xs = (if xs = [] then None else Some (of_int (sum_list xs) / of_nat (length xs)))"

definition groupby_decade :: "indi list \<Rightarrow> (int \<times> rat option \<times> nat) list" where
  "groupby_decade rs =
     map (\<lambda>k. (k, mean (group_ages rs k), length (group_ages rs k)))
         (sort (remdups (List.map_filter decade rs)))"

text \<open>\<^verbatim>\<open>range(start, stop, step)\<close> for a positive step.\<close>

definition py_range :: "int \<Rightarrow> int \<Rightarrow> int \<Rightarrow> int list" where
  "py_range start stop step =
     map (\<lambda>i. start + step * int i) [0 ..< nat ((stop - start + step - 1) div step)]"

definition all_decades :: "int list" where
  "all_decades = py_range start_year (end_year + 1) 10"

text \<open>
  \<^verbatim>\<open>pd.merge(all_decades, stats, on='Vuosikymmen', how='left')\<close>: the keys of the left
  frame in their order, each with every row of the right frame that has this key, or
  with missing values when there is none.
\<close>

definition merge_left ::
  "int list \<Rightarrow> (int \<times> rat option \<times> nat) list \<Rightarrow> (int \<times> rat option \<times> nat option) list" where
  "merge_left ks right =
     concat (map (\<lambda>k. case filter (\<lambda>(d, m, c). d = k) right of
                         [] \<Rightarrow> [(k, None, None)]
                       | ms \<Rightarrow> map (\<lambda>(d, m, c). (k, m, Some c)) ms) ks)"

text \<open>
  A row of the statistics table: the decade, the mean age and the number of individuals
  (the three columns that the program renames for display).
\<close>

record stat_row =
  decade_of :: int
  mean_age :: rat
  count :: nat

text \<open>\<^verbatim>\<open>.fillna(0)\<close>\<close>

definition fillna :: "int \<times> rat option \<times> nat option \<Rightarrow> stat_row" where
  "fillna t =
     (case t of (k, m, c) \<Rightarrow>
        \<lparr>decade_of = k,
         mean_age = (case m of None \<Rightarrow> 0 | Some x \<Rightarrow> x),
         count = (case c of None \<Rightarrow> 0 | Some n \<Rightarrow> n)\<rparr>)"

text \<open>\<^verbatim>\<open>.round(1)\<close>: the nearest integer to ten times the value, a tie to the even one.\<close>

definition round_half_even :: "rat \<Rightarrow> int" where
  "round_half_even x =
     (let f = \<lfloor>x\<rfloor>; d = x - of_int f
      in if d < 1 / 2 then f
         else if 1 / 2 < d then f + 1
         else if even f then f else f + 1)"

definition round1 :: "rat \<Rightarrow> rat" where
  "round1 x = of_int (round_half_even (x * 10)) / 10"

text \<open>The table \<^verbatim>\<open>stats\<close> as the program shows it, from the rows of \<^verbatim>\<open>filtered_df\<close>.\<close>

definition stats :: "indi list \<Rightarrow> stat_row list" where
  "stats filtered =
     map (\<lambda>row. row\<lparr>mean_age := round1 (mean_age row)\<rparr>)
         (map fillna (merge_left all_decades (groupby_decade filtered)))"

text \<open>
  What the page shows: the error message of the \<^verbatim>\<open>except\<close> branch, the warning that no
  individual is in range, or the table with the two numbers of the closing note (the
  sum of the column of counts, and \<^verbatim>\<open>len(df)\<close>). The last statement on the table turns
  the decade into the label of the chart and is left to the page.
\<close>

datatype outcome =
    St_error py_error
  | St_warning
  | St_stats "stat_row list" nat nat

definition analyse :: "dataframe \<Rightarrow> outcome" where
  "analyse df0 =
     (case dropna df0 of
        Inl e \<Rightarrow> St_error e
      | Inr df1 \<Rightarrow>
          let df = filter age_mask (rows df1);
              filtered_df = filter mask_range df
          in if filtered_df = [] then St_warning
             else let st = stats filtered_df
                  in St_stats st (sum_list (map count st)) (length df))"

definition app :: "string \<Rightarrow> outcome" where
  "app content = analyse (parse_gedcom_to_df content)"

section \<open>Vocabulary of the properties\<close>

text \<open>
  Four decimal digits stand in a row at position \<open>i\<close> of \<open>s\<close>; the run may be part of a
  longer run of digits, as for the pattern \<^verbatim>\<open>\d{4}\<close>.
\<close>

definition four_digits_at :: "string \<Rightarrow> nat \<Rightarrow> bool" where
  "four_digits_at s i = (i + 4 \<le> length s \<and> list_all isdigit (take 4 (drop i s)))"

text \<open>The decimal value of the four characters at position \<open>i\<close>.\<close>

definition year_at :: "string \<Rightarrow> nat \<Rightarrow> int" where
  "year_at s i =
     1000 * digit_value (s ! i) + 100 * digit_value (s ! (i + 1))
       + 10 * digit_value (s ! (i + 2)) + digit_value (s ! (i + 3))"

text \<open>
  The reading of the year extractor that takes "a run of exactly four digits" by the
  letter: four digits stand in a row at position \<open>i\<close> with no digit just before them and
  none just after them; \<open>year_of_first_exact_run\<close> is the value of the first such run, and
  no value for the absent fragment and for a fragment without such a run.
\<close>

definition exact_run_at :: "string \<Rightarrow> nat \<Rightarrow> bool" where
  "exact_run_at s i =
     (four_digits_at s i
      \<and> (if i = 0 then True else \<not> isdigit (s ! (i - 1)))
      \<and> (if i + 4 = length s then True else \<not> isdigit (s ! (i + 4))))"

definition year_of_first_exact_run :: "string option \<Rightarrow> int option" where
  "year_of_first_exact_run date_str =
     (case date_str of
        None \<Rightarrow> None
      | Some s \<Rightarrow> map_option (year_at s) (find (exact_run_at s) [0 ..< length s]))"

text \<open>
  An individual-marker line: a line whose level is \<^verbatim>\<open>0\<close> and whose payload is \<^verbatim>\<open>INDI\<close>,
  and the tag token of a line.
\<close>

definition is_indi_marker :: "string \<Rightarrow> bool" where
  "is_indi_marker line =
     (case line_parts line of
        Some (level, tag, payload) \<Rightarrow> level = ''0'' \<and> payload = ''INDI''
      | None \<Rightarrow> False)"

definition marker_tag :: "string \<Rightarrow> string" where
  "marker_tag line =
     (case line_parts line of Some (level, tag, payload) \<Rightarrow> tag | None \<Rightarrow> [])"

text \<open>
  The conditions on a record, in the words of the specification: both years present;
  the age, death year minus birth year; a plausible age, from 0 to 119; a birth year in
  the range 1800 to 1899; and the decade of the birth year, the year rounded down to a
  multiple of ten.
\<close>

definition both_present :: "indi \<Rightarrow> bool" where
  "both_present r = (birth_year r \<noteq> None \<and> death_year r \<noteq> None)"

definition life_span :: "indi \<Rightarrow> int" where
  "life_span r =
     (case (birth_year r, death_year r) of
        (Some b, Some d) \<Rightarrow> d - b
      | _ \<Rightarrow> 0)"

definition plausible :: "indi \<Rightarrow> bool" where
  "plausible r = (both_present r \<and> 0 \<le> life_span r \<and> life_span r < 120)"

definition born_in_range :: "indi \<Rightarrow> bool" where
  "born_in_range r = (case birth_year r of Some b \<Rightarrow> 1800 \<le> b \<and> b \<le> 1899 | None \<Rightarrow> False)"

definition qualifies :: "indi \<Rightarrow> bool" where
  "qualifies r = (plausible r \<and> born_in_range r)"

definition born_in_decade :: "indi \<Rightarrow> int \<Rightarrow> bool" where
  "born_in_decade r k = (case birth_year r of Some b \<Rightarrow> (b div 10) * 10 = k | None \<Rightarrow> False)"

text \<open>The coverage total of the closing note, when the page shows one.\<close>

definition coverage :: "outcome \<Rightarrow> nat option" where
  "coverage out = (case out of St_stats tbl tot cov \<Rightarrow> Some cov | _ \<Rightarrow> None)"

text \<open>
  The row of the table for the decade \<open>k\<close> before rounding, from the rows \<open>rs\<close> of
  \<^verbatim>\<open>filtered_df\<close>.
\<close>

definition table_row :: "indi list \<Rightarrow> int \<Rightarrow> stat_row" where
  "table_row rs k =
     \<lparr>decade_of = k,
      mean_age = (case mean (group_ages rs k) of None \<Rightarrow> 0 | Some x \<Rightarrow> x),
      count = length (group_ages rs k)\<rparr>"

text \<open>
  A worked example: three individuals born in the first decade of the range with ages
  70, 61 and 66, one with no death year and one born before the range; and the table
  the program shows for them.
\<close>

definition example_records :: "indi list" where
  "example_records =
     [\<lparr>id_str = ''@I1@'', birth_year = Some 1805, death_year = Some 1875\<rparr>,
      \<lparr>id_str = ''@I2@'', birth_year = Some 1809, death_year = Some 1870\<rparr>,
      \<lparr>id_str = ''@I3@'', birth_year = Some 1801, death_year = Some 1867\<rparr>,
      \<lparr>id_str = ''@I4@'', birth_year = Some 1885, death_year = None\<rparr>,
      \<lparr>id_str = ''@I5@'', birth_year = Some 1750, death_year = Some 1800\<rparr>]"

definition example_table :: "stat_row list" where
  "example_table =
     [\<lparr>decade_of = 1800, mean_age = 657 / 10, count = 3\<rparr>,
      \<lparr>decade_of = 1810, mean_age = 0, count = 0\<rparr>,
      \<lparr>decade_of = 1820, mean_age = 0, count = 0\<rparr>,
      \<lparr>decade_of = 1830, mean_age = 0, count = 0\<rparr>,
      \<lparr>decade_of = 1840, mean_age = 0, count = 0\<rparr>,
      \<lparr>decade_of = 1850, mean_age = 0, count = 0\<rparr>,
      \<lparr>decade_of = 1860, mean_age = 0, count = 0\<rparr>,
      \<lparr>decade_of = 1870, mean_age = 0, count = 0\<rparr>,
      \<lparr>decade_of = 1880, mean_age = 0, count = 0\<rparr>,
      \<lparr>decade_of = 1890, mean_age = 0, count = 0\<rparr>]"

section \<open>The year extractor finds the first four digits\<close>

lemma re_search_d4_Cons:
  "re_search_d4 (c # cs) =
     (if four_digits_at (c # cs) 0 then Some (take 4 (c # cs)) else re_search_d4 cs)"
  by (simp add: four_digits_at_def)

lemma four_digits_at_Cons_Suc: "four_digits_at (c # cs) (Suc i) = four_digits_at cs i"
  by (simp add: four_digits_at_def add.commute)

lemma four_digits_at_Nil: "\<not> four_digits_at [] i"
  by (simp add: four_digits_at_def)

lemma re_search_d4_None: "re_search_d4 s = None \<longleftrightarrow> (\<forall>i. \<not> four_digits_at s i)"
proof (induction s)
  case Nil
  show ?case by (simp add: four_digits_at_Nil)
next
  case (Cons c cs)
  show ?case
  proof (cases "four_digits_at (c # cs) 0")
    case True
    then have "re_search_d4 (c # cs) \<noteq> None"
      by (simp only: re_search_d4_Cons if_True) simp
    with True show ?thesis by blast
  next
    case False
    then have "re_search_d4 (c # cs) = re_search_d4 cs"
      by (simp only: re_search_d4_Cons if_False)
    moreover have "(\<forall>i. \<not> four_digits_at (c # cs) i) \<longleftrightarrow> (\<forall>i. \<not> four_digits_at cs i)"
    proof
      assume "\<forall>i. \<not> four_digits_at (c # cs) i"
      then show "\<forall>i. \<not> four_digits_at cs i"
        using four_digits_at_Cons_Suc by blast
    next
      assume a: "\<forall>i. \<not> four_digits_at cs i"
      show "\<forall>i. \<not> four_digits_at (c # cs) i"
      proof
        fix i show "\<not> four_digits_at (c # cs) i"
          using False a by (cases i) (simp_all add: four_digits_at_Cons_Suc)
      qed
    qed
    ultimately show ?thesis using Cons.IH by simp
  qed
qed

lemma re_search_d4_Some:
  "re_search_d4 s = Some m \<Longrightarrow>
     \<exists>i. four_digits_at s i \<and> (\<forall>k<i. \<not> four_digits_at s k) \<and> m = take 4 (drop i s)"
proof (induction s)
  case Nil
  then show ?case by simp
next
  case (Cons c cs)
  show ?case
  proof (cases "four_digits_at (c # cs) 0")
    case True
    with Cons.prems have "m = take 4 (drop 0 (c # cs))"
      by (simp only: re_search_d4_Cons if_True drop_0) simp
    with True show ?thesis by blast
  next
    case False
    with Cons.prems have "re_search_d4 cs = Some m"
      by (simp only: re_search_d4_Cons if_False)
    then obtain i where i: "four_digits_at cs i" "\<forall>k<i. \<not> four_digits_at cs k"
      "m = take 4 (drop i cs)"
      using Cons.IH by blast
    have "\<forall>k<Suc i. \<not> four_digits_at (c # cs) k"
    proof (intro allI impI)
      fix k assume "k < Suc i"
      then show "\<not> four_digits_at (c # cs) k"
        using False i(2) by (cases k) (simp_all add: four_digits_at_Cons_Suc)
    qed
    moreover have "four_digits_at (c # cs) (Suc i)"
      using i(1) by (simp add: four_digits_at_Cons_Suc)
    moreover have "m = take 4 (drop (Suc i) (c # cs))"
      using i(3) by simp
    ultimately show ?thesis by blast
  qed
qed

lemma int_of_digits_take4:
  assumes "i + 4 \<le> length s"
  shows "int_of_digits (take 4 (drop i s)) = year_at s i"
proof -
  have "take 4 (drop i s) = [s ! i, s ! (i + 1), s ! (i + 2), s ! (i + 3)]"
    using assms by (intro nth_equalityI) (auto simp: nth_Cons' less_Suc_eq numeral_eq_Suc)
  then show ?thesis
    by (simp add: int_of_digits_def year_at_def)
qed

text \<open>A run of more than four digits gives its first four digits.\<close>

lemma extract_year_longer_run: "extract_year (Some ''12345'') = Some 1234"
  by code_simp

text \<open>
  On the fragments that the specification lists, the reading by the letter and the
  function agree.
\<close>

lemma year_of_first_exact_run_examples:
  "year_of_first_exact_run (Some ''ABT 1850'') = Some 1850"
  "year_of_first_exact_run (Some ''12 JAN 1850'') = Some 1850"
  "year_of_first_exact_run (Some '''') = None"
  "year_of_first_exact_run None = None"
  "year_of_first_exact_run (Some ''no digits here'') = None"
  by code_simp+

text \<open>
  Claim C2 says that \<open>extract_year\<close> returns the value of the first run of exactly four
  consecutive decimal digits, and no value exactly when the fragment is absent, empty or
  without such a run. The pattern \<^verbatim>\<open>\d{4}\<close> also matches inside a longer run of digits:
  the fragment \<^verbatim>\<open>12345\<close> has no run of exactly four digits and the function returns 1234,
  and in \<^verbatim>\<open>123456 7890\<close> the first run of exactly four digits is 7890 and the function
  returns 1234.
\<close>

theorem extract_year_not_exact_run:
  "extract_year (Some ''12345'') = Some 1234
   \<and> year_of_first_exact_run (Some ''12345'') = None
   \<and> extract_year (Some ''123456 7890'') = Some 1234
   \<and> year_of_first_exact_run (Some ''123456 7890'') = Some 7890"
  by code_simp

text \<open>
  Claim C2, amended. \<open>extract_year\<close> has no value exactly for the absent fragment, the
  empty fragment and a fragment in which no four decimal digits stand in a row.
  Otherwise its value is the decimal value of the four digits at the leftmost position
  where four digits stand in a row, whether or not more digits follow them. The function
  is total: no input raises an error.
\<close>

theorem extract_year_first_four_digits:
  "(extract_year date_str = None \<longleftrightarrow>
      date_str = None \<or> date_str = Some [] \<or>
      (\<exists>s. date_str = Some s \<and> (\<forall>i. \<not> four_digits_at s i)))
   \<and> (\<forall>y. extract_year date_str = Some y \<longrightarrow>
         (\<exists>s i. date_str = Some s \<and> four_digits_at s i
                \<and> (\<forall>k<i. \<not> four_digits_at s k) \<and> y = year_at s i))"
proof (cases date_str)
  case None
  then show ?thesis by (simp add: extract_year_def)
next
  case (Some s)
  show ?thesis
  proof (cases "re_search_d4 s")
    case None
    then have "\<forall>i. \<not> four_digits_at s i" by (simp add: re_search_d4_None)
    with Some None show ?thesis by (simp add: extract_year_def)
  next
    case (Some m)
    then obtain i where i: "four_digits_at s i" "\<forall>k<i. \<not> four_digits_at s k"
      "m = take 4 (drop i s)"
      using re_search_d4_Some by blast
    from i(1) have len: "i + 4 \<le> length s" by (simp add: four_digits_at_def)
    then have ne: "s \<noteq> []" by auto
    have val: "extract_year date_str = Some (year_at s i)"
      using \<open>date_str = Some s\<close> Some ne i(3) int_of_digits_take4 [OF len]
      by (simp add: extract_year_def)
    have "\<not> (\<forall>j. \<not> four_digits_at s j)" using i(1) by blast
    with val i \<open>date_str = Some s\<close> ne show ?thesis by auto
  qed
qed

theorem extract_year_first_four_digits_witness:
  "extract_year (Some ''ABT 1850'') = Some 1850
   \<and> (\<exists>i. four_digits_at ''ABT 1850'' i \<and> (\<forall>k<i. \<not> four_digits_at ''ABT 1850'' k)
          \<and> 1850 = year_at ''ABT 1850'' i)
   \<and> extract_year (Some ''no digits here'') = None
   \<and> (\<forall>i. \<not> four_digits_at ''no digits here'' i)"
proof -
  have a: "extract_year (Some ''ABT 1850'') = Some 1850" by code_simp
  have d: "extract_year (Some ''no digits here'') = None" by code_simp
  from a extract_year_first_four_digits [of "Some ''ABT 1850''"]
  have b: "\<exists>i. four_digits_at ''ABT 1850'' i \<and> (\<forall>k<i. \<not> four_digits_at ''ABT 1850'' k)
          \<and> 1850 = year_at ''ABT 1850'' i"
    by simp
  from d extract_year_first_four_digits [of "Some ''no digits here''"]
  have c: "\<forall>i. \<not> four_digits_at ''no digits here'' i" by simp
  from a b c d show ?thesis by simp
qed

section \<open>The records of the parser follow the individual markers\<close>

lemma finish_process_line:
  "map id_str (finish (process_line st l)) =
     map id_str (finish st) @ (if is_indi_marker l then [marker_tag l] else [])"
  by (auto simp: process_line_def finish_def is_indi_marker_def marker_tag_def Let_def
      split: option.splits)

lemma finish_foldl_process_line:
  "map id_str (finish (foldl process_line st ls)) =
     map id_str (finish st) @ map marker_tag (filter is_indi_marker ls)"
proof (induction ls arbitrary: st)
  case Nil
  show ?case by simp
next
  case (Cons l ls)
  have "map id_str (finish (foldl process_line st (l # ls))) =
        map id_str (finish (process_line st l)) @ map marker_tag (filter is_indi_marker ls)"
    using Cons.IH [of "process_line st l"] by simp
  also have "\<dots> = map id_str (finish st) @ map marker_tag (filter is_indi_marker (l # ls))"
    by (simp add: finish_process_line)
  finally show ?case .
qed

lemma parse_lines_ids:
  "map id_str (parse_lines ls) = map marker_tag (filter is_indi_marker ls)"
proof -
  have "map id_str (finish init_pstate) = []"
    by (simp add: finish_def init_pstate_def)
  then show ?thesis
    by (simp only: parse_lines_def finish_foldl_process_line append_Nil)
qed

lemma rows_parse_gedcom_to_df:
  "rows (parse_gedcom_to_df content) = parse_lines (splitlines content)"
  by (simp add: parse_gedcom_to_df_def DataFrame_def)

text \<open>
  Claim C4. For every input document the parser returns one record for each
  individual-marker line (a line of level \<^verbatim>\<open>0\<close> with payload \<^verbatim>\<open>INDI\<close>), in the order of the
  lines, and the \<open>id\<close> of each record is the tag token of its marker line. So a document
  with \<open>N\<close> marker lines gives exactly \<open>N\<close> records, the last individual included although
  no marker follows it.
\<close>

theorem parser_one_record_per_marker:
  "map id_str (rows (parse_gedcom_to_df content)) =
     map marker_tag (filter is_indi_marker (splitlines content))
   \<and> length (rows (parse_gedcom_to_df content)) =
     length (filter is_indi_marker (splitlines content))"
proof -
  have ids: "map id_str (rows (parse_gedcom_to_df content)) =
     map marker_tag (filter is_indi_marker (splitlines content))"
    by (simp add: rows_parse_gedcom_to_df parse_lines_ids)
  have "length (map id_str (rows (parse_gedcom_to_df content))) =
     length (map marker_tag (filter is_indi_marker (splitlines content)))"
    by (simp only: ids)
  then have "length (rows (parse_gedcom_to_df content)) =
     length (filter is_indi_marker (splitlines content))"
    by (simp only: length_map)
  with ids show ?thesis by blast
qed

theorem parser_one_record_per_marker_witness:
  "filter is_indi_marker
     (splitlines ''0 HEAD\<newline>0 @I1@ INDI\<newline>1 BIRT\<newline>2 DATE 1850\<newline>0 @F1@ FAM\<newline>0 @I2@ INDI'')
     = [''0 @I1@ INDI'', ''0 @I2@ INDI'']
   \<and> map id_str (rows (parse_gedcom_to_df
        ''0 HEAD\<newline>0 @I1@ INDI\<newline>1 BIRT\<newline>2 DATE 1850\<newline>0 @F1@ FAM\<newline>0 @I2@ INDI''))
     = [''@I1@'', ''@I2@'']"
  (is "?markers \<and> ?ids")
proof -
  have m: ?markers by code_simp
  have t: "map marker_tag [''0 @I1@ INDI'', ''0 @I2@ INDI''] = [''@I1@'', ''@I2@'']"
    by code_simp
  from parser_one_record_per_marker
    [of "''0 HEAD\<newline>0 @I1@ INDI\<newline>1 BIRT\<newline>2 DATE 1850\<newline>0 @F1@ FAM\<newline>0 @I2@ INDI''"]
  have ?ids unfolding m t by (rule conjunct1)
  with m show ?thesis by (rule conjI)
qed

text \<open>
  Claim C8 says that the \<open>id\<close> fields of the records of one parse are pairwise distinct.
  The parser copies the tag token of every marker line and compares it with nothing: a
  document that uses one tag token on two marker lines gives two records with one \<open>id\<close>.
\<close>

theorem parser_ids_repeated:
  "\<not> distinct (map id_str (rows (parse_gedcom_to_df ''0 @I1@ INDI\<newline>0 @I1@ INDI'')))"
  by code_simp

text \<open>
  Claim C8, amended. The \<open>id\<close> fields of the records of one parse are pairwise distinct
  exactly when the tag tokens of the individual-marker lines of the document are
  pairwise distinct.
\<close>

theorem parser_ids_distinct_iff:
  "distinct (map id_str (rows (parse_gedcom_to_df content))) \<longleftrightarrow>
   distinct (map marker_tag (filter is_indi_marker (splitlines content)))"
  by (simp add: rows_parse_gedcom_to_df parse_lines_ids)

theorem parser_ids_distinct_iff_witness:
  "distinct (map marker_tag (filter is_indi_marker (splitlines ''0 @I1@ INDI\<newline>0 @I2@ INDI'')))
   \<and> distinct (map id_str (rows (parse_gedcom_to_df ''0 @I1@ INDI\<newline>0 @I2@ INDI'')))"
  (is "?tags \<and> ?ids")
proof -
  have t: ?tags by code_simp
  with parser_ids_distinct_iff [of "''0 @I1@ INDI\<newline>0 @I2@ INDI''"]
  have ?ids by (rule iffD2)
  with t show ?thesis by (rule conjI)
qed

section \<open>Lines that leave the individual under construction alone\<close>

lemma process_line_other_level:
  assumes "current_indi st = Some cur" and "last_tag st = None"
    and "\<forall>lv t p. line_parts l = Some (lv, t, p) \<longrightarrow> lv \<noteq> ''1'' \<and> \<not> (lv = ''0'' \<and> p = ''INDI'')"
  shows "current_indi (process_line st l) = Some cur \<and> last_tag (process_line st l) = None"
  using assms
  by (auto simp: process_line_def Let_def truthy_def split: option.splits)

lemma foldl_process_line_other_levels:
  assumes "current_indi st = Some cur" and "last_tag st = None"
    and "\<forall>l\<in>set ls. \<forall>lv t p. line_parts l = Some (lv, t, p) \<longrightarrow>
           lv \<noteq> ''1'' \<and> \<not> (lv = ''0'' \<and> p = ''INDI'')"
  shows "current_indi (foldl process_line st ls) = Some cur
       \<and> last_tag (foldl process_line st ls) = None"
  using assms
proof (induction ls arbitrary: st)
  case Nil
  then show ?case by simp
next
  case (Cons l ls)
  have "current_indi (process_line st l) = Some cur \<and> last_tag (process_line st l) = None"
    using Cons.prems by (intro process_line_other_level) auto
  then show ?case using Cons.IH [of "process_line st l"] Cons.prems(3) by simp
qed

lemma process_line_unrelated_tag:
  assumes "current_indi st = Some cur"
    and "line_parts l = Some (''1'', tag, payload)"
    and "tag \<noteq> ''BIRT''" and "tag \<noteq> ''DEAT''"
  shows "current_indi (process_line st l) = Some cur \<and> last_tag (process_line st l) = None"
  using assms by (simp add: process_line_def Let_def truthy_def)

text \<open>
  Claim C5. While an individual is under construction, a line of level \<^verbatim>\<open>1\<close> whose tag is
  neither \<^verbatim>\<open>BIRT\<close> nor \<^verbatim>\<open>DEAT\<close> clears the remembered tag. The lines that follow, as long
  as none of them is of level \<^verbatim>\<open>1\<close> or an individual marker (so in particular a
  \<^verbatim>\<open>DATE\<close> line of level \<^verbatim>\<open>2\<close>), leave the record under construction as it was: neither
  its birth year nor its death year is written.
\<close>

theorem unrelated_tag_clears_memory:
  assumes "current_indi st = Some cur"
    and "line_parts l = Some (''1'', tag, payload)"
    and "tag \<noteq> ''BIRT''" and "tag \<noteq> ''DEAT''"
    and "\<forall>l'\<in>set ls. \<forall>lv t p. line_parts l' = Some (lv, t, p) \<longrightarrow>
           lv \<noteq> ''1'' \<and> \<not> (lv = ''0'' \<and> p = ''INDI'')"
  shows "last_tag (process_line st l) = None
       \<and> current_indi (foldl process_line (process_line st l) ls) = Some cur
       \<and> last_tag (foldl process_line (process_line st l) ls) = None"
proof -
  from process_line_unrelated_tag [OF assms(1-4)]
  have a: "current_indi (process_line st l) = Some cur" "last_tag (process_line st l) = None"
    by simp_all
  from foldl_process_line_other_levels [OF a assms(5)] a(2) show ?thesis by simp
qed

theorem unrelated_tag_clears_memory_witness:
  "current_indi (foldl process_line init_pstate [''0 @I1@ INDI'', ''1 BIRT'']) =
     Some \<lparr>id_str = ''@I1@'', birth_year = None, death_year = None\<rparr>
   \<and> last_tag (foldl process_line init_pstate [''0 @I1@ INDI'', ''1 BIRT'']) = Some ''BIRT''
   \<and> line_parts ''1 NAME Matti /Virtanen/'' = Some (''1'', ''NAME'', ''Matti /Virtanen/'')
   \<and> line_parts ''2 DATE 12 JAN 1850'' = Some (''2'', ''DATE'', ''12 JAN 1850'')
   \<and> current_indi
        (foldl process_line
           (process_line (foldl process_line init_pstate [''0 @I1@ INDI'', ''1 BIRT''])
              ''1 NAME Matti /Virtanen/'')
           [''2 DATE 12 JAN 1850'']) =
     Some \<lparr>id_str = ''@I1@'', birth_year = None, death_year = None\<rparr>"
  (is "?cur \<and> ?lt \<and> ?l1 \<and> ?l2 \<and> ?res")
proof -
  have c: ?cur by code_simp
  have t: ?lt by code_simp
  have l1: ?l1 by code_simp
  have l2: ?l2 by code_simp
  have rest: "\<forall>l'\<in>set [''2 DATE 12 JAN 1850'']. \<forall>lv t p. line_parts l' = Some (lv, t, p) \<longrightarrow>
           lv \<noteq> ''1'' \<and> \<not> (lv = ''0'' \<and> p = ''INDI'')"
    by (simp add: l2)
  have ne: "''NAME'' \<noteq> ''BIRT''" "''NAME'' \<noteq> ''DEAT''" by simp_all
  from unrelated_tag_clears_memory [OF c l1 ne rest] have ?res by (rule conjunct1 [OF conjunct2])
  with c t l1 l2 show ?thesis by blast
qed

text \<open>
  Claim C10. While an individual is under construction and the remembered tag is
  \<^verbatim>\<open>BIRT\<close> or \<^verbatim>\<open>DEAT\<close>, a \<^verbatim>\<open>DATE\<close> line of level \<^verbatim>\<open>2\<close> whose payload has no four digits
  in a row sets the birth year (for \<^verbatim>\<open>BIRT\<close>) or the death year (for \<^verbatim>\<open>DEAT\<close>) to absent,
  whatever year an earlier date line had stored there.
\<close>

theorem date_without_year_overwrites:
  assumes "current_indi st = Some cur"
    and "last_tag st = Some ev" and "ev = ''BIRT'' \<or> ev = ''DEAT''"
    and "line_parts l = Some (''2'', ''DATE'', payload)"
    and "\<forall>i. \<not> four_digits_at payload i"
  shows "current_indi (process_line st l) =
           Some (if ev = ''BIRT'' then cur\<lparr>birth_year := None\<rparr> else cur\<lparr>death_year := None\<rparr>)"
proof -
  have "re_search_d4 payload = None" using assms(5) by (simp add: re_search_d4_None)
  then have "extract_year (Some payload) = None" by (simp add: extract_year_def)
  with assms(1-4) show ?thesis
    by (auto simp: process_line_def Let_def truthy_def)
qed

theorem date_without_year_overwrites_witness:
  "current_indi (foldl process_line init_pstate [''0 @I1@ INDI'', ''1 BIRT'', ''2 DATE 1850''])
     = Some \<lparr>id_str = ''@I1@'', birth_year = Some 1850, death_year = None\<rparr>
   \<and> last_tag (foldl process_line init_pstate [''0 @I1@ INDI'', ''1 BIRT'', ''2 DATE 1850''])
     = Some ''BIRT''
   \<and> line_parts ''2 DATE unknown'' = Some (''2'', ''DATE'', ''unknown'')
   \<and> current_indi
       (process_line
          (foldl process_line init_pstate [''0 @I1@ INDI'', ''1 BIRT'', ''2 DATE 1850''])
          ''2 DATE unknown'')
     = Some \<lparr>id_str = ''@I1@'', birth_year = None, death_year = None\<rparr>"
  (is "?cur \<and> ?lt \<and> ?l \<and> ?res")
proof -
  have c: ?cur by code_simp
  have t: ?lt by code_simp
  have l: ?l by code_simp
  have "re_search_d4 ''unknown'' = None" by code_simp
  then have nd: "\<forall>i. \<not> four_digits_at ''unknown'' i" by (rule iffD1 [OF re_search_d4_None])
  have ev: "''BIRT'' = ''BIRT'' \<or> ''BIRT'' = ''DEAT''" by simp
  from date_without_year_overwrites [OF c t ev l nd] have ?res by simp
  with c t l show ?thesis by blast
qed

section \<open>The aggregator on the records of a frame\<close>

lemma age_mask_plausible: "age_mask r = plausible r"
  by (auto simp: age_mask_def age_def plausible_def both_present_def life_span_def
      split: option.splits)

lemma mask_range_born_in_range: "mask_range r = born_in_range r"
  by (simp add: mask_range_def born_in_range_def start_year_def end_year_def split: option.splits)

lemma dropna_DataFrame:
  "dropna (DataFrame inds) =
     (if inds = [] then Inl (KeyError [''birth_year'', ''death_year''])
      else Inr ((DataFrame inds)\<lparr>rows := filter both_present inds\<rparr>))"
  by (simp add: dropna_def DataFrame_def Let_def both_present_def [abs_def])

lemma filter_plausible_both: "filter age_mask (filter both_present rs) = filter plausible rs"
  by (induction rs) (auto simp: age_mask_plausible plausible_def simp del: filter_filter)

lemma filter_mask_plausible: "filter mask_range (filter plausible rs) = filter qualifies rs"
  by (induction rs) (auto simp: mask_range_born_in_range qualifies_def simp del: filter_filter)

lemma analyse_DataFrame:
  "analyse (DataFrame inds) =
     (if inds = [] then St_error (KeyError [''birth_year'', ''death_year''])
      else if filter qualifies inds = [] then St_warning
      else St_stats (stats (filter qualifies inds))
             (sum_list (map count (stats (filter qualifies inds))))
             (length (filter plausible inds)))"
  by (simp add: analyse_def dropna_DataFrame Let_def filter_plausible_both
      filter_mask_plausible del: filter_filter)

lemma filter_key_distinct:
  "distinct ks \<Longrightarrow>
     filter (\<lambda>(d, m, c). d = k) (map (\<lambda>j. (j, f j, g j)) ks) =
       (if k \<in> set ks then [(k, f k, g k)] else [])"
  by (induction ks) auto

lemma set_map_filter_decade:
  "set (List.map_filter decade rs) = {k. \<exists>r\<in>set rs. decade r = Some k}"
  by (induction rs) (auto simp: List.map_filter_simps split: option.splits)

lemma group_ages_no_key:
  "k \<notin> set (List.map_filter decade rs) \<Longrightarrow> group_ages rs k = []"
proof -
  assume "k \<notin> set (List.map_filter decade rs)"
  then have "\<forall>r\<in>set rs. decade r \<noteq> Some k"
    by (simp add: set_map_filter_decade)
  then have "filter (\<lambda>r. decade r = Some k) rs = []"
    by (simp add: filter_empty_conv)
  then show ?thesis by (simp add: group_ages_def List.map_filter_simps)
qed

lemma merge_one_key:
  "map fillna
     (case filter (\<lambda>(d, m, c). d = k) (groupby_decade rs) of
        [] \<Rightarrow> [(k, None, None)]
      | ms \<Rightarrow> map (\<lambda>(d, m, c). (k, m, Some c)) ms) = [table_row rs k]"
proof -
  let ?ks = "sort (remdups (List.map_filter decade rs))"
  have d: "distinct ?ks" by simp
  have s: "set ?ks = set (List.map_filter decade rs)" by simp
  have f: "filter (\<lambda>(d, m, c). d = k) (groupby_decade rs) =
        (if k \<in> set ?ks then [(k, mean (group_ages rs k), length (group_ages rs k))] else [])"
    unfolding groupby_decade_def by (rule filter_key_distinct [OF d])
  show ?thesis
  proof (cases "k \<in> set ?ks")
    case True
    with f show ?thesis by (simp add: fillna_def table_row_def)
  next
    case False
    then have "group_ages rs k = []" using s group_ages_no_key by blast
    with False f show ?thesis by (simp add: fillna_def table_row_def mean_def)
  qed
qed

lemma fillna_merge_left:
  "map fillna (merge_left ks (groupby_decade rs)) = map (table_row rs) ks"
  by (induction ks) (simp_all add: merge_left_def merge_one_key)

lemma stats_rows:
  "stats rs = map (\<lambda>k. (table_row rs k)\<lparr>mean_age := round1 (mean_age (table_row rs k))\<rparr>) all_decades"
  by (simp add: stats_def fillna_merge_left)

lemma all_decades_eq:
  "all_decades = [1800, 1810, 1820, 1830, 1840, 1850, 1860, 1870, 1880, 1890]"
  by code_simp

lemma round1_zero: "round1 0 = 0"
  by (simp add: round1_def round_half_even_def)

lemma decade_of_stats: "map decade_of (stats rs) = all_decades"
  by (simp add: stats_rows table_row_def comp_def)


lemma decade_born_in_decade: "decade r = Some k \<longleftrightarrow> born_in_decade r k"
  by (simp add: decade_def born_in_decade_def split: option.splits)

lemma qualifies_age: "qualifies r \<Longrightarrow> age r = Some (life_span r)"
  by (auto simp: qualifies_def plausible_def both_present_def age_def life_span_def)

lemma map_filter_age:
  "\<forall>r\<in>set xs. qualifies r \<Longrightarrow> List.map_filter age xs = map life_span xs"
  by (induction xs) (simp_all add: List.map_filter_simps qualifies_age)

lemma group_ages_qualifying:
  "group_ages (filter qualifies inds) k =
     map life_span (filter (\<lambda>r. qualifies r \<and> born_in_decade r k) inds)"
proof -
  have "filter (\<lambda>r. decade r = Some k) (filter qualifies inds) =
        filter (\<lambda>r. qualifies r \<and> born_in_decade r k) inds"
    by (simp add: decade_born_in_decade)
  moreover have "\<forall>r\<in>set (filter (\<lambda>r. qualifies r \<and> born_in_decade r k) inds). qualifies r"
    by simp
  ultimately show ?thesis
    by (simp only: group_ages_def map_filter_age)
qed

lemma round_half_even_near: "\<bar>of_int (round_half_even x) - x\<bar> \<le> 1 / 2"
proof -
  define d where "d = x - of_int \<lfloor>x\<rfloor>"
  have d: "0 \<le> d" "d < 1" unfolding d_def by linarith+
  have x: "x = of_int \<lfloor>x\<rfloor> + d" by (simp add: d_def)
  consider "d < 1 / 2" | "1 / 2 < d" | "d = 1 / 2" by linarith
  then show ?thesis
  proof cases
    case 1
    then have "round_half_even x = \<lfloor>x\<rfloor>"
      by (simp add: round_half_even_def Let_def d_def)
    then have "of_int (round_half_even x) - x = - d" by (simp add: d_def)
    with 1 d show ?thesis by simp
  next
    case 2
    then have "round_half_even x = \<lfloor>x\<rfloor> + 1"
      by (simp add: round_half_even_def Let_def d_def)
    then have "of_int (round_half_even x) - x = 1 - d" by (simp add: d_def)
    with 2 d show ?thesis by simp
  next
    case 3
    then have "round_half_even x = \<lfloor>x\<rfloor> \<or> round_half_even x = \<lfloor>x\<rfloor> + 1"
      by (simp add: round_half_even_def Let_def d_def)
    then have "of_int (round_half_even x) - x = - d \<or> of_int (round_half_even x) - x = 1 - d"
      by (auto simp: d_def)
    with 3 show ?thesis by auto
  qed
qed

lemma round1_near: "\<bar>round1 x - x\<bar> \<le> 1 / 20"
proof -
  have "\<bar>of_int (round_half_even (x * 10)) - x * 10\<bar> \<le> 1 / 2"
    by (rule round_half_even_near)
  then show ?thesis
    by (simp add: round1_def abs_if field_simps split: if_splits)
qed

lemma round1_tenth: "\<exists>n::int. round1 x = of_int n / 10"
  by (auto simp: round1_def)

lemma sum_indicator_distinct:
  "distinct ks \<Longrightarrow> x \<in> set ks \<Longrightarrow> (\<Sum>k\<leftarrow>ks. if x = k then 1 else 0) = (1::nat)"
proof (induction ks)
  case Nil
  then show ?case by simp
next
  case (Cons a ks)
  show ?case
  proof (cases "x = a")
    case True
    with Cons.prems have "x \<notin> set ks" by simp
    then have "(\<Sum>k\<leftarrow>ks. if x = k then 1 else 0) = (0::nat)"
      by (induction ks) auto
    with True show ?thesis by simp
  next
    case False
    with Cons show ?thesis by simp
  qed
qed

lemma sum_group_sizes:
  assumes "distinct ks" and "\<forall>r\<in>set rs. \<exists>k\<in>set ks. born_in_decade r k"
  shows "(\<Sum>k\<leftarrow>ks. length (filter (\<lambda>r. born_in_decade r k) rs)) = length rs"
  using assms(2)
proof (induction rs)
  case Nil
  show ?case by simp
next
  case (Cons a rs)
  from Cons.prems obtain j where j: "j \<in> set ks" "born_in_decade a j" by auto
  have one: "\<And>k. born_in_decade a k \<longleftrightarrow> j = k"
    using j(2) by (auto simp: born_in_decade_def split: option.splits)
  have "(\<Sum>k\<leftarrow>ks. length (filter (\<lambda>r. born_in_decade r k) (a # rs))) =
        (\<Sum>k\<leftarrow>ks. (if j = k then 1 else 0) + length (filter (\<lambda>r. born_in_decade r k) rs))"
    by (intro arg_cong [where f = sum_list] map_cong) (simp_all add: one)
  also have "\<dots> = (\<Sum>k\<leftarrow>ks. if j = k then 1 else 0)
                   + (\<Sum>k\<leftarrow>ks. length (filter (\<lambda>r. born_in_decade r k) rs))"
    by (simp add: sum_list_addf)
  also have "\<dots> = 1 + length rs"
    using sum_indicator_distinct [OF assms(1) j(1)] Cons by simp
  finally show ?case by simp
qed

lemma qualifies_decade_in_range:
  assumes "qualifies r"
  shows "\<exists>k\<in>set all_decades. born_in_decade r k"
proof -
  from assms obtain b where b: "birth_year r = Some b" "1800 \<le> b" "b \<le> 1899"
    by (auto simp: qualifies_def born_in_range_def split: option.splits)
  then have "180 \<le> b div 10" "b div 10 \<le> 189" by linarith+
  then have "b div 10 = 180 \<or> b div 10 = 181 \<or> b div 10 = 182 \<or> b div 10 = 183
      \<or> b div 10 = 184 \<or> b div 10 = 185 \<or> b div 10 = 186 \<or> b div 10 = 187
      \<or> b div 10 = 188 \<or> b div 10 = 189"
    by arith
  then have "(b div 10) * 10 \<in> set all_decades"
    unfolding all_decades_eq by auto
  with b(1) show ?thesis by (auto simp: born_in_decade_def)
qed

lemma distinct_all_decades: "distinct all_decades"
  unfolding all_decades_eq by simp

lemma count_stats_total:
  "sum_list (map count (stats (filter qualifies inds))) = length (filter qualifies inds)"
proof -
  have "sum_list (map count (stats (filter qualifies inds))) =
        (\<Sum>k\<leftarrow>all_decades. length (filter (\<lambda>r. born_in_decade r k) (filter qualifies inds)))"
    by (simp add: stats_rows table_row_def comp_def group_ages_qualifying)
  also have "\<dots> = length (filter qualifies inds)"
    by (rule sum_group_sizes [OF distinct_all_decades]) (simp add: qualifies_decade_in_range)
  finally show ?thesis .
qed

lemma stats_row_qualifying:
  assumes "row \<in> set (stats (filter qualifies inds))"
  shows "count row = length (filter (\<lambda>r. qualifies r \<and> born_in_decade r (decade_of row)) inds)
       \<and> mean_age row =
           round1 (case mean (map life_span
                     (filter (\<lambda>r. qualifies r \<and> born_in_decade r (decade_of row)) inds)) of
                     None \<Rightarrow> 0 | Some x \<Rightarrow> x)"
  using assms by (auto simp: stats_rows table_row_def group_ages_qualifying)

lemma analyse_stats_cases:
  assumes "analyse (DataFrame inds) = St_stats tbl tot cov"
  shows "tbl = stats (filter qualifies inds)" and "tot = length (filter qualifies inds)"
    and "cov = length (filter plausible inds)"
  using assms by (auto simp: analyse_DataFrame count_stats_total split: if_splits)

lemma qualifies_iff:
  "qualifies r \<longleftrightarrow>
     (\<exists>b d. birth_year r = Some b \<and> death_year r = Some d
        \<and> 0 \<le> d - b \<and> d - b < 120 \<and> 1800 \<le> b \<and> b \<le> 1899)"
  by (auto simp: qualifies_def plausible_def both_present_def life_span_def born_in_range_def
      split: option.splits)

lemma plausible_iff:
  "plausible r \<longleftrightarrow>
     (\<exists>b d. birth_year r = Some b \<and> death_year r = Some d \<and> 0 \<le> d - b \<and> d - b < 120)"
  by (auto simp: plausible_def both_present_def life_span_def split: option.splits)

lemma example_run: "analyse (DataFrame example_records) = St_stats example_table 3 4"
  by code_simp

lemma no_marker_is_an_error:
  "filter is_indi_marker (splitlines content) = [] \<Longrightarrow>
     app content = St_error (KeyError [''birth_year'', ''death_year''])"
proof -
  assume "filter is_indi_marker (splitlines content) = []"
  then have "map id_str (parse_lines (splitlines content)) = []"
    by (simp add: parse_lines_ids)
  then have "parse_lines (splitlines content) = []" by simp
  then show ?thesis
    by (simp add: app_def parse_gedcom_to_df_def analyse_DataFrame)
qed

lemma no_qualifying_record_is_a_warning:
  "inds \<noteq> [] \<Longrightarrow> filter qualifies inds = [] \<Longrightarrow> analyse (DataFrame inds) = St_warning"
  by (simp add: analyse_DataFrame)

section \<open>The coverage total\<close>

text \<open>
  Claim C1 says that the coverage total is the number of parsed records with both years
  present, whatever else is filtered. The program counts the frame after the filter on
  the age, so a record with both years and a negative age is left out: of the two
  individuals below, born 1850 and dead 1900, and born 1900 and dead 1850, both have the
  two years and the coverage total is 1.
\<close>

theorem coverage_not_both_present_count:
  "coverage (app ''0 @I1@ INDI\<newline>1 BIRT\<newline>2 DATE 1850\<newline>1 DEAT\<newline>2 DATE 1900\<newline>0 @I2@ INDI\<newline>1 BIRT\<newline>2 DATE 1900\<newline>1 DEAT\<newline>2 DATE 1850'') = Some 1
   \<and> length (filter both_present (rows (parse_gedcom_to_df
        ''0 @I1@ INDI\<newline>1 BIRT\<newline>2 DATE 1850\<newline>1 DEAT\<newline>2 DATE 1900\<newline>0 @I2@ INDI\<newline>1 BIRT\<newline>2 DATE 1900\<newline>1 DEAT\<newline>2 DATE 1850''))) = 2"
  by code_simp

text \<open>
  Claim C1, amended. Whenever the page shows the statistics, the coverage total is the
  number of parsed records that have both years present and a plausible age (death year
  minus birth year from 0 to 119). The range of birth years plays no part in it.
\<close>

theorem coverage_counts_plausible_records:
  "app content = St_stats tbl tot cov \<Longrightarrow>
     cov = length (filter plausible (rows (parse_gedcom_to_df content)))"
proof -
  assume a: "app content = St_stats tbl tot cov"
  have df: "parse_gedcom_to_df content = DataFrame (parse_lines (splitlines content))"
    by (simp add: parse_gedcom_to_df_def)
  from a have "analyse (DataFrame (parse_lines (splitlines content))) = St_stats tbl tot cov"
    by (simp add: app_def df)
  then have "cov = length (filter plausible (parse_lines (splitlines content)))"
    by (rule analyse_stats_cases(3))
  then show ?thesis by (simp add: rows_parse_gedcom_to_df)
qed

theorem coverage_counts_plausible_records_witness:
  "app ''0 @I1@ INDI\<newline>1 BIRT\<newline>2 DATE 1850\<newline>1 DEAT\<newline>2 DATE 1900\<newline>0 @I2@ INDI\<newline>1 BIRT\<newline>2 DATE 1750\<newline>1 DEAT\<newline>2 DATE 1800''
     = St_stats
        [\<lparr>decade_of = 1800, mean_age = 0, count = 0\<rparr>,
         \<lparr>decade_of = 1810, mean_age = 0, count = 0\<rparr>,
         \<lparr>decade_of = 1820, mean_age = 0, count = 0\<rparr>,
         \<lparr>decade_of = 1830, mean_age = 0, count = 0\<rparr>,
         \<lparr>decade_of = 1840, mean_age = 0, count = 0\<rparr>,
         \<lparr>decade_of = 1850, mean_age = 50, count = 1\<rparr>,
         \<lparr>decade_of = 1860, mean_age = 0, count = 0\<rparr>,
         \<lparr>decade_of = 1870, mean_age = 0, count = 0\<rparr>,
         \<lparr>decade_of = 1880, mean_age = 0, count = 0\<rparr>,
         \<lparr>decade_of = 1890, mean_age = 0, count = 0\<rparr>] 1 2
   \<and> length (filter plausible (rows (parse_gedcom_to_df
        ''0 @I1@ INDI\<newline>1 BIRT\<newline>2 DATE 1850\<newline>1 DEAT\<newline>2 DATE 1900\<newline>0 @I2@ INDI\<newline>1 BIRT\<newline>2 DATE 1750\<newline>1 DEAT\<newline>2 DATE 1800''))) = 2"
  (is "?run \<and> ?len")
proof -
  have r: ?run by code_simp
  from coverage_counts_plausible_records [OF r] have ?len by (rule sym)
  with r show ?thesis by (rule conjI)
qed

section \<open>The statistics table\<close>

text \<open>
  Claim C3. For every sequence of records, a statistics table that is produced has
  exactly one row for each of the decades 1800, 1810, ..., 1890, in ascending order, and
  a decade in which no qualifying record was born has the mean age 0 and the count 0.
\<close>

theorem stats_one_row_per_decade:
  assumes "analyse (DataFrame inds) = St_stats tbl tot cov"
  shows "map decade_of tbl = [1800, 1810, 1820, 1830, 1840, 1850, 1860, 1870, 1880, 1890]
       \<and> (\<forall>row\<in>set tbl.
            filter (\<lambda>r. qualifies r \<and> born_in_decade r (decade_of row)) inds = []
              \<longrightarrow> mean_age row = 0 \<and> count row = 0)"
proof -
  have tbl: "tbl = stats (filter qualifies inds)"
    using assms by (rule analyse_stats_cases(1))
  have "map decade_of tbl = [1800, 1810, 1820, 1830, 1840, 1850, 1860, 1870, 1880, 1890]"
    by (simp only: tbl decade_of_stats all_decades_eq)
  moreover have "\<forall>row\<in>set tbl.
            filter (\<lambda>r. qualifies r \<and> born_in_decade r (decade_of row)) inds = []
              \<longrightarrow> mean_age row = 0 \<and> count row = 0"
  proof (intro ballI impI)
    fix row
    assume row: "row \<in> set tbl"
      and e: "filter (\<lambda>r. qualifies r \<and> born_in_decade r (decade_of row)) inds = []"
    from row have "row \<in> set (stats (filter qualifies inds))" by (simp only: tbl)
    from stats_row_qualifying [OF this] e show "mean_age row = 0 \<and> count row = 0"
      by (simp add: mean_def round1_zero)
  qed
  ultimately show ?thesis by blast
qed

theorem stats_one_row_per_decade_witness:
  "analyse (DataFrame example_records) = St_stats example_table 3 4
   \<and> map decade_of example_table = [1800, 1810, 1820, 1830, 1840, 1850, 1860, 1870, 1880, 1890]
   \<and> example_table ! 2 \<in> set example_table
   \<and> filter (\<lambda>r. qualifies r \<and> born_in_decade r (decade_of (example_table ! 2)))
        example_records = []
   \<and> mean_age (example_table ! 2) = 0 \<and> count (example_table ! 2) = 0"
  (is "?run \<and> ?decades \<and> ?mem \<and> ?none \<and> ?zero")
proof -
  note inst = stats_one_row_per_decade [OF example_run]
  from inst have d: ?decades by (rule conjunct1)
  have m: ?mem by (simp add: example_table_def)
  have n: ?none by code_simp
  from inst m n have z: ?zero by blast
  from example_run d m n z show ?thesis by blast
qed

text \<open>
  Claim C6. The statistics are computed from exactly the records that qualify: those
  with both years present, an age (death year minus birth year) from 0 to 119 and a
  birth year from 1800 to 1899. The table is the table of these records, its total is
  their number, and the count of each row is the number of them born in its decade.
\<close>

theorem statistics_from_qualifying_records:
  assumes "analyse (DataFrame inds) = St_stats tbl tot cov"
  shows "tbl = stats (filter qualifies inds)
       \<and> tot = length (filter qualifies inds)
       \<and> (\<forall>row\<in>set tbl.
            count row = length (filter (\<lambda>r. qualifies r \<and> born_in_decade r (decade_of row)) inds))
       \<and> (\<forall>r. qualifies r \<longleftrightarrow>
            (\<exists>b d. birth_year r = Some b \<and> death_year r = Some d
               \<and> 0 \<le> d - b \<and> d - b < 120 \<and> 1800 \<le> b \<and> b \<le> 1899))"
proof -
  have tbl: "tbl = stats (filter qualifies inds)"
    using assms by (rule analyse_stats_cases(1))
  have tot: "tot = length (filter qualifies inds)"
    using assms by (rule analyse_stats_cases(2))
  have "\<forall>row\<in>set tbl.
      count row = length (filter (\<lambda>r. qualifies r \<and> born_in_decade r (decade_of row)) inds)"
    unfolding tbl using stats_row_qualifying by blast
  with tbl tot qualifies_iff show ?thesis by blast
qed

theorem statistics_from_qualifying_records_witness:
  "analyse (DataFrame example_records) = St_stats example_table 3 4
   \<and> length (filter qualifies example_records) = 3
   \<and> example_table ! 0 \<in> set example_table
   \<and> length (filter (\<lambda>r. qualifies r \<and> born_in_decade r (decade_of (example_table ! 0)))
        example_records) = count (example_table ! 0)"
  (is "?run \<and> ?tot \<and> ?mem \<and> ?cnt")
proof -
  note inst = statistics_from_qualifying_records [OF example_run]
  from inst have t: ?tot by simp
  have m: ?mem by (simp add: example_table_def)
  from inst m have c: ?cnt by simp
  from example_run t m c show ?thesis by blast
qed

text \<open>
  Claim C7. When some record qualifies, every qualifying record is counted in the row of
  the decade of its birth year, the birth year rounded down to a multiple of ten. In
  each row the count is the number of qualifying records of the decade, and when there
  is one the mean age is the arithmetic mean of their ages rounded to one decimal place:
  a whole number of tenths at most a twentieth away from the mean. Averages are exact
  here, where the program computes in floating point.
\<close>

theorem decade_mean_and_count:
  assumes "analyse (DataFrame inds) = St_stats tbl tot cov"
  shows "(\<forall>r\<in>set inds. qualifies r \<longrightarrow>
            (\<exists>b. birth_year r = Some b \<and> (b div 10) * 10 \<in> set (map decade_of tbl)
                 \<and> born_in_decade r ((b div 10) * 10)))
       \<and> (\<forall>row\<in>set tbl. \<forall>grp.
            grp = filter (\<lambda>r. qualifies r \<and> born_in_decade r (decade_of row)) inds \<longrightarrow>
              count row = length grp
              \<and> (grp \<noteq> [] \<longrightarrow>
                   mean_age row =
                     round1 (of_int (sum_list (map life_span grp)) / of_nat (length grp))
                   \<and> \<bar>mean_age row
                        - of_int (sum_list (map life_span grp)) / of_nat (length grp)\<bar> \<le> 1 / 20
                   \<and> (\<exists>n::int. mean_age row = of_int n / 10)))"
proof -
  have tbl: "tbl = stats (filter qualifies inds)"
    using assms by (rule analyse_stats_cases(1))
  have a: "\<forall>r\<in>set inds. qualifies r \<longrightarrow>
            (\<exists>b. birth_year r = Some b \<and> (b div 10) * 10 \<in> set (map decade_of tbl)
                 \<and> born_in_decade r ((b div 10) * 10))"
  proof (intro ballI impI)
    fix r assume "r \<in> set inds" and q: "qualifies r"
    from qualifies_decade_in_range [OF q] obtain k where
      k: "k \<in> set all_decades" "born_in_decade r k" by blast
    from k(2) obtain b where b: "birth_year r = Some b" "(b div 10) * 10 = k"
      by (auto simp: born_in_decade_def split: option.splits)
    have "map decade_of tbl = all_decades" by (simp only: tbl decade_of_stats)
    with k b show "\<exists>b. birth_year r = Some b \<and> (b div 10) * 10 \<in> set (map decade_of tbl)
                 \<and> born_in_decade r ((b div 10) * 10)"
      by auto
  qed
  have b: "\<forall>row\<in>set tbl. \<forall>grp.
            grp = filter (\<lambda>r. qualifies r \<and> born_in_decade r (decade_of row)) inds \<longrightarrow>
              count row = length grp
              \<and> (grp \<noteq> [] \<longrightarrow>
                   mean_age row =
                     round1 (of_int (sum_list (map life_span grp)) / of_nat (length grp))
                   \<and> \<bar>mean_age row
                        - of_int (sum_list (map life_span grp)) / of_nat (length grp)\<bar> \<le> 1 / 20
                   \<and> (\<exists>n::int. mean_age row = of_int n / 10))"
  proof (intro ballI allI impI)
    fix row grp
    assume row: "row \<in> set tbl"
      and grp: "grp = filter (\<lambda>r. qualifies r \<and> born_in_decade r (decade_of row)) inds"
    from row have "row \<in> set (stats (filter qualifies inds))" by (simp only: tbl)
    from stats_row_qualifying [OF this] grp
    have c: "count row = length grp"
      and m: "mean_age row = round1 (case mean (map life_span grp) of None \<Rightarrow> 0 | Some x \<Rightarrow> x)"
      by simp_all
    have "grp \<noteq> [] \<longrightarrow>
                   mean_age row =
                     round1 (of_int (sum_list (map life_span grp)) / of_nat (length grp))
                   \<and> \<bar>mean_age row
                        - of_int (sum_list (map life_span grp)) / of_nat (length grp)\<bar> \<le> 1 / 20
                   \<and> (\<exists>n::int. mean_age row = of_int n / 10)"
    proof
      assume "grp \<noteq> []"
      with m have e: "mean_age row =
          round1 (of_int (sum_list (map life_span grp)) / of_nat (length grp))"
        by (simp add: mean_def)
      show "mean_age row =
                     round1 (of_int (sum_list (map life_span grp)) / of_nat (length grp))
                   \<and> \<bar>mean_age row
                        - of_int (sum_list (map life_span grp)) / of_nat (length grp)\<bar> \<le> 1 / 20
                   \<and> (\<exists>n::int. mean_age row = of_int n / 10)"
        unfolding e using round1_near round1_tenth by blast
    qed
    with c show "count row = length grp
              \<and> (grp \<noteq> [] \<longrightarrow>
                   mean_age row =
                     round1 (of_int (sum_list (map life_span grp)) / of_nat (length grp))
                   \<and> \<bar>mean_age row
                        - of_int (sum_list (map life_span grp)) / of_nat (length grp)\<bar> \<le> 1 / 20
                   \<and> (\<exists>n::int. mean_age row = of_int n / 10))"
      by blast
  qed
  from a b show ?thesis by blast
qed

theorem decade_mean_and_count_witness:
  "analyse (DataFrame example_records) = St_stats example_table 3 4
   \<and> example_table ! 0 \<in> set example_table
   \<and> filter (\<lambda>r. qualifies r \<and> born_in_decade r (decade_of (example_table ! 0)))
        example_records = take 3 example_records
   \<and> take 3 example_records \<noteq> []
   \<and> count (example_table ! 0) = length (take 3 example_records)
   \<and> mean_age (example_table ! 0) =
       round1 (of_int (sum_list (map life_span (take 3 example_records)))
                 / of_nat (length (take 3 example_records)))"
  (is "?run \<and> ?mem \<and> ?grp \<and> ?ne \<and> ?cnt \<and> ?mean")
proof -
  note inst = decade_mean_and_count [OF example_run]
  have m: ?mem by (simp add: example_table_def)
  have g: ?grp by code_simp
  have ne: ?ne by (simp add: example_records_def)
  from inst m g [symmetric] have
    "count (example_table ! 0) = length (take 3 example_records)
     \<and> (take 3 example_records \<noteq> [] \<longrightarrow>
          mean_age (example_table ! 0) =
            round1 (of_int (sum_list (map life_span (take 3 example_records)))
                      / of_nat (length (take 3 example_records)))
          \<and> \<bar>mean_age (example_table ! 0)
               - of_int (sum_list (map life_span (take 3 example_records)))
                   / of_nat (length (take 3 example_records))\<bar> \<le> 1 / 20
          \<and> (\<exists>n::int. mean_age (example_table ! 0) = of_int n / 10))"
    by blast
  with ne have c: ?cnt and mn: ?mean by blast+
  from example_run m g ne c mn show ?thesis by blast
qed

section \<open>A document without individuals\<close>

text \<open>
  Claim C9 says that an input whose records are all filtered away gets the notice that
  no data is in range, and that no exception is raised. For a document with no
  individual the frame has no column, the first filter raises \<^verbatim>\<open>KeyError\<close>, and the page
  shows the error message of the \<^verbatim>\<open>except\<close> branch instead of the notice. The empty
  document is such an input.
\<close>

theorem no_individual_is_an_error:
  "app '''' = St_error (KeyError [''birth_year'', ''death_year''])"
  by code_simp

end
